theory Spec2Isabelle
  imports Main "HOL-Library.Sublist"
begin

section \<open>Python strings\<close>

text \<open>
  A Python \<open>str\<close> is modelled as a \<open>string\<close>: the list of its code points, each
  \<open>char\<close> being one code point below 256.  The builtin string operations used by
  \<open>command_executor.py\<close> and \<open>assistant.py\<close> are written out below with the behaviour
  they have on such texts.
\<close>

definition bs :: char where
  "bs = CHR 0x5C"

definition quote :: char where
  "quote = CHR 0x27"

text \<open>\<open>str.isspace\<close> on one character: TAB, LF, VT, FF, CR, the separators
  \<open>0x1C\<close>..\<open>0x1F\<close>, the blank, NEL and the no-break space.\<close>

definition isspace :: "char \<Rightarrow> bool" where
  "isspace c = (of_char c \<in> {9, 10, 11, 12, 13, 28, 29, 30, 31, 32, 133, 160 :: nat})"

text \<open>\<open>str.lower\<close> on one character: \<open>A\<close>..\<open>Z\<close> and the accented capitals
  \<open>0xC0\<close>..\<open>0xDE\<close> (without the multiplication sign \<open>0xD7\<close>) move up by 32.\<close>

definition lower_char :: "char \<Rightarrow> char" where
  "lower_char c =
     (let n = (of_char c :: nat)
      in if (65 \<le> n \<and> n \<le> 90) \<or> (192 \<le> n \<and> n \<le> 222 \<and> n \<noteq> 215)
         then char_of (n + 32) else c)"

definition py_lower :: "string \<Rightarrow> string" where
  "py_lower s = map lower_char s"

text \<open>\<open>s.strip()\<close>: leading and trailing whitespace removed.\<close>

definition py_strip :: "string \<Rightarrow> string" where
  "py_strip s = rev (dropWhile isspace (rev (dropWhile isspace s)))"

text \<open>\<open>sub in s\<close>: \<open>sub\<close> occurs in \<open>s\<close> as a contiguous run of characters.\<close>

fun contains :: "string \<Rightarrow> string \<Rightarrow> bool" where
  "contains sub [] = (sub = [])"
| "contains sub (c # cs) = (prefix sub (c # cs) \<or> contains sub cs)"

text \<open>\<open>s.split()\<close>: the maximal runs of non-whitespace characters, scanned from the
  left; \<open>cur\<close> is the run being read.\<close>

fun split_ws :: "string \<Rightarrow> string \<Rightarrow> string list" where
  "split_ws cur [] = (if cur = [] then [] else [cur])"
| "split_ws cur (c # cs) =
     (if isspace c then (if cur = [] then split_ws [] cs else cur # split_ws [] cs)
      else split_ws (cur @ [c]) cs)"

definition py_split :: "string \<Rightarrow> string list" where
  "py_split s = split_ws [] s"

text \<open>\<open>sep.join(ws)\<close>.\<close>

fun py_join :: "string \<Rightarrow> string list \<Rightarrow> string" where
  "py_join sep [] = []"
| "py_join sep [w] = w"
| "py_join sep (w # v # ws) = w @ sep @ py_join sep (v # ws)"

text \<open>\<open>s.replace(old, new)\<close>: the occurrences of \<open>old\<close> are replaced from the left,
  without overlap.  For an empty \<open>old\<close> Python puts \<open>new\<close> before every character and
  at the end.\<close>

function replace_ne :: "string \<Rightarrow> string \<Rightarrow> string \<Rightarrow> string" where
  "replace_ne old new [] = []"
| "replace_ne old new (c # cs) =
     (if old \<noteq> [] \<and> prefix old (c # cs)
      then new @ replace_ne old new (drop (length old) (c # cs))
      else c # replace_ne old new cs)"
  by pat_completeness auto
termination
  by (relation "measure (\<lambda>(old, new, s). length s)") auto

definition py_replace :: "string \<Rightarrow> string \<Rightarrow> string \<Rightarrow> string" where
  "py_replace old new s =
     (if old = [] then new @ concat (map (\<lambda>c. c # new) s) else replace_ne old new s)"




section \<open>Regular expressions of \<open>DANGEROUS_PATTERNS\<close>\<close>

text \<open>
  The patterns are kept as the source writes them (raw strings; \<open>bs\<close> is the
  backslash).  They use only literal characters, escaped punctuation, \<open>\s\<close>, the dot
  and the postfix operators \<open>*\<close> and \<open>+\<close>; \<open>re_compile\<close> reads that fragment and
  gives \<open>None\<close> on anything else.  \<open>re.search(p, s, re.IGNORECASE)\<close> is truthy when
  some position of \<open>s\<close> starts a match.
\<close>

datatype atom = Lit char | Ws | AnyChar

datatype quant = One | Star | Plus

definition re_special :: "char \<Rightarrow> bool" where
  "re_special c = (c \<in> set ''*+?()[]{}|^$'')"

definition is_alnum :: "char \<Rightarrow> bool" where
  "is_alnum c =
     (let n = (of_char c :: nat)
      in (48 \<le> n \<and> n \<le> 57) \<or> (65 \<le> n \<and> n \<le> 90) \<or> (97 \<le> n \<and> n \<le> 122))"

fun re_atom :: "string \<Rightarrow> (atom \<times> string) option" where
  "re_atom [] = None"
| "re_atom [c] = (if c = bs \<or> re_special c then None
                   else Some (if c = CHR ''.'' then AnyChar else Lit c, []))"
| "re_atom (c # d # cs) =
     (if c = bs then
        (if d = CHR ''s'' then Some (Ws, cs)
         else if is_alnum d then None
         else Some (Lit d, cs))
      else if re_special c then None
      else Some (if c = CHR ''.'' then AnyChar else Lit c, d # cs))"

lemma re_atom_shorter: "re_atom s = Some (a, r) \<Longrightarrow> length r < length s"
  by (induction s rule: re_atom.induct) (auto split: if_splits)

function re_compile :: "string \<Rightarrow> (atom \<times> quant) list option" where
  "re_compile s =
     (if s = [] then Some []
      else case re_atom s of
        None \<Rightarrow> None
      | Some (a, r) \<Rightarrow>
          (case r of
             [] \<Rightarrow> Some [(a, One)]
           | q # r' \<Rightarrow>
               if q = CHR ''*'' then map_option (\<lambda>is. (a, Star) # is) (re_compile r')
               else if q = CHR ''+'' then map_option (\<lambda>is. (a, Plus) # is) (re_compile r')
               else map_option (\<lambda>is. (a, One) # is) (re_compile r)))"
  by pat_completeness auto
termination
  by (relation "measure length") (auto dest: re_atom_shorter)

declare re_compile.simps [simp del]

text \<open>One character against one atom, ignoring case; the dot does not match a newline.\<close>

fun atom_ok :: "atom \<Rightarrow> char \<Rightarrow> bool" where
  "atom_ok (Lit d) c = (lower_char c = lower_char d)"
| "atom_ok Ws c = isspace c"
| "atom_ok AnyChar c = (c \<noteq> CHR 0x0A)"

fun match_here :: "(atom \<times> quant) list \<Rightarrow> string \<Rightarrow> bool" where
  "match_here [] s = True"
| "match_here ((a, One) # r) [] = False"
| "match_here ((a, One) # r) (c # cs) = (atom_ok a c \<and> match_here r cs)"
| "match_here ((a, Plus) # r) [] = False"
| "match_here ((a, Plus) # r) (c # cs) = (atom_ok a c \<and> match_here ((a, Star) # r) cs)"
| "match_here ((a, Star) # r) [] = match_here r []"
| "match_here ((a, Star) # r) (c # cs) =
     (match_here r (c # cs) \<or> (atom_ok a c \<and> match_here ((a, Star) # r) cs))"

fun match_anywhere :: "(atom \<times> quant) list \<Rightarrow> string \<Rightarrow> bool" where
  "match_anywhere p [] = match_here p []"
| "match_anywhere p (c # cs) = (match_here p (c # cs) \<or> match_anywhere p cs)"

definition re_search_ic :: "string \<Rightarrow> string \<Rightarrow> bool" where
  "re_search_ic pat s = (case re_compile pat of None \<Rightarrow> False | Some p \<Rightarrow> match_anywhere p s)"

section \<open>\<open>CommandExecutor\<close>: classification and validation\<close>

definition DANGEROUS_PATTERNS :: "string list" where
  "DANGEROUS_PATTERNS =
     [''rm'' @ bs # ''s+-rf'' @ bs # ''s+/'',
      ''rm'' @ bs # ''s+-rf'' @ bs # ''s+'' @ bs # ''*'',
      ''dd'' @ bs # ''s+if=.*of=/dev/'',
      ''mkfs'',
      ''>'' @ bs # ''s*/dev/'',
      ''chmod'' @ bs # ''s+-R'' @ bs # ''s+777'',
      ''chown'' @ bs # ''s+-R'' @ bs # ''s+root'',
      ''curl.*'' @ bs # ''|'' @ bs # ''s*bash'',
      ''wget.*'' @ bs # ''|'' @ bs # ''s*sh'',
      '':'' @ bs # ''('' @ bs # '')'' @ bs # ''s*'' @ bs # ''{.*'' @ bs # ''}'']"

definition is_dangerous :: "string \<Rightarrow> bool \<times> string list" where
  "is_dangerous cmd =
     (let risks0 = map (\<lambda>pattern. ''Matches dangerous pattern: '' @ pattern)
                     (filter (\<lambda>pattern. re_search_ic pattern cmd) DANGEROUS_PATTERNS);
          risks1 = risks0 @
            (if prefix ''sudo'' (py_strip cmd) then [''Requires root/admin privileges''] else []);
          risks2 = risks1 @
            (if contains ''>'' cmd \<and> \<not> contains ''>>'' cmd
             then [''May overwrite existing files''] else []);
          risks3 = risks2 @
            (if contains ''|'' cmd \<and> list_ex (\<lambda>shell. contains shell cmd) [''bash'', ''sh'', ''zsh'']
             then [''Pipes to shell - could execute arbitrary code''] else [])
      in (length risks3 > 0, risks3))"

definition dangerous_chars :: "string list" where
  "dangerous_chars = [''`'', ''$(...)'', ''${...}'']"

definition validate_command :: "string \<Rightarrow> bool \<times> string" where
  "validate_command cmd =
     (if cmd = [] \<or> py_strip cmd = [] then (False, ''Empty command'')
      else case find (\<lambda>ch. contains ch cmd) dangerous_chars of
             Some ch \<Rightarrow> (False, ''Potential shell injection: contains '' @ ch)
           | None \<Rightarrow> (True, ''Valid''))"

section \<open>\<open>CommandExecutor\<close>: running commands\<close>

text \<open>
  The result dictionaries of \<open>execute\<close> and \<open>execute_with_confirmation\<close>.  The keys
  \<open>error\<close>, \<open>is_dangerous\<close>, \<open>risks\<close> and \<open>dry_run\<close> are present in some results
  only, so these fields are optional.
\<close>

record outcome =
  success :: bool
  command :: string
  error :: "string option"
  stdout :: string
  stderr :: string
  returncode :: int
  is_dangerous_key :: "bool option"
  risks :: "string list option"
  dry_run :: "bool option"

text \<open>
  What lies outside the program.  \<open>subprocess.run\<close> either completes with a return
  code and the two captured texts, or raises \<open>TimeoutExpired\<close>, or raises another
  exception with a message.  The suggestion provider (\<open>get_command_suggestion\<close>, a
  network call that catches its own exceptions) answers a query with a suggestion, a
  dictionary holding the keys that are displayed; \<open>execute_command\<close> reads its
  command.  Both may depend on everything that
  happened before, so they take the trace of earlier events.  The terminal is the list
  of what the coming calls of \<open>input()\<close> meet: a line, or an interrupt; at the end
  of the list \<open>input()\<close> raises \<open>EOFError\<close>.  Printing is not modelled, apart from
  the confirmation prompt, which is an event.
\<close>

datatype proc_result = Completed int string string | TimeoutExpired | OtherException string

datatype event = AskConfirm string "string list" | Spawn string | ProviderQuery string

datatype stdin_item = Line string | CtrlC

datatype exn = EOFError | KeyboardInterrupt | IndexError

record suggestion =
  s_command :: string
  safe_to_auto_execute :: bool

record world =
  shell :: "event list \<Rightarrow> string \<Rightarrow> proc_result"
  provider :: "event list \<Rightarrow> string \<Rightarrow> suggestion"

record state =
  history :: "outcome list"
  stdin :: "stdin_item list"
  trace :: "event list"

definition invalid_result :: "string \<Rightarrow> string \<Rightarrow> outcome" where
  "invalid_result cmd reason =
     \<lparr>success = False, command = cmd, error = Some (''Invalid command: '' @ reason),
      stdout = [], stderr = [], returncode = - 1,
      is_dangerous_key = None, risks = None, dry_run = None\<rparr>"

definition cancelled_result :: "string \<Rightarrow> outcome" where
  "cancelled_result cmd =
     \<lparr>success = False, command = cmd, error = Some ''Execution cancelled by user'',
      stdout = [], stderr = [], returncode = - 1,
      is_dangerous_key = None, risks = None, dry_run = None\<rparr>"

text \<open>The dictionary \<open>result\<close> of \<open>execute\<close> once \<open>success\<close>, \<open>stdout\<close>,
  \<open>stderr\<close> and \<open>returncode\<close> have been filled in.\<close>

definition run_result ::
  "string \<Rightarrow> bool \<Rightarrow> string list \<Rightarrow> bool \<Rightarrow> bool \<Rightarrow> string \<Rightarrow> string \<Rightarrow> int \<Rightarrow> outcome" where
  "run_result cmd dang rs dry ok out err rc =
     \<lparr>success = ok, command = cmd, error = None,
      stdout = out, stderr = err, returncode = rc,
      is_dangerous_key = Some dang, risks = Some rs, dry_run = Some dry\<rparr>"

definition execute :: "world \<Rightarrow> string \<Rightarrow> bool \<Rightarrow> state \<Rightarrow> outcome \<times> state" where
  "execute w cmd dry st =
     (case validate_command cmd of (valid, reason) \<Rightarrow>
        if \<not> valid then (invalid_result cmd reason, st)
        else (case is_dangerous cmd of (dang, rs) \<Rightarrow>
          if dry then
            (run_result cmd dang rs dry True (''[DRY RUN] Would execute: '' @ cmd) [] 0, st)
          else
            (let st1 = st\<lparr>trace := trace st @ [Spawn cmd]\<rparr>
             in (case shell w (trace st) cmd of
                   Completed rc out err \<Rightarrow>
                     (let result = run_result cmd dang rs dry (rc = 0) out err rc
                      in (result, st1\<lparr>history := history st1 @ [result]\<rparr>))
                 | TimeoutExpired \<Rightarrow>
                     (run_result cmd dang rs dry False []
                        ''Command timed out after 30 seconds'' (- 1), st1)
                 | OtherException e \<Rightarrow>
                     (run_result cmd dang rs dry False []
                        (''Execution failed: '' @ e) (- 1), st1)))))"

text \<open>\<open>input(prompt)\<close>.\<close>

definition input_line :: "state \<Rightarrow> (exn + string) \<times> state" where
  "input_line st =
     (case stdin st of
        [] \<Rightarrow> (Inl EOFError, st)
      | CtrlC # rest \<Rightarrow> (Inl KeyboardInterrupt, st\<lparr>stdin := rest\<rparr>)
      | Line l # rest \<Rightarrow> (Inr l, st\<lparr>stdin := rest\<rparr>))"

definition execute_with_confirmation ::
  "world \<Rightarrow> string \<Rightarrow> bool \<Rightarrow> state \<Rightarrow> (exn + outcome) \<times> state" where
  "execute_with_confirmation w cmd auto_confirm st =
     (case is_dangerous cmd of (dang, rs) \<Rightarrow>
        if dang \<and> \<not> auto_confirm then
          (case input_line (st\<lparr>trace := trace st @ [AskConfirm cmd rs]\<rparr>) of
             (Inl e, st1) \<Rightarrow> (Inl e, st1)
           | (Inr response, st1) \<Rightarrow>
               if py_lower response \<noteq> ''y'' then (Inr (cancelled_result cmd), st1)
               else (case execute w cmd False st1 of (r, st2) \<Rightarrow> (Inr r, st2)))
        else (case execute w cmd False st of (r, st1) \<Rightarrow> (Inr r, st1)))"

text \<open>\<open>get_last_error\<close>: the latest entry of the history that failed.\<close>

definition get_last_error :: "state \<Rightarrow> outcome option" where
  "get_last_error st = find (\<lambda>c. \<not> success c) (rev (history st))"

section \<open>\<open>CommandExecutor.suggest_fix\<close>\<close>

text \<open>\<open>re.search(r"No module named '([^']+)'", s)\<close>, giving group 1 of the leftmost
  match.\<close>

fun find_module :: "string \<Rightarrow> string option" where
  "find_module [] = None"
| "find_module (c # cs) =
     (let pre = ''No module named '' @ [quote]
      in if prefix pre (c # cs) then
           (let rest = drop (length pre) (c # cs);
                m = takeWhile (\<lambda>x. x \<noteq> quote) rest
            in if m \<noteq> [] \<and> dropWhile (\<lambda>x. x \<noteq> quote) rest \<noteq> [] then Some m
               else find_module cs)
         else find_module cs)"

definition suggest_fix :: "outcome \<Rightarrow> exn + string list" where
  "suggest_fix error_result =
     (let error_text = py_lower (stderr error_result);
          cmd = command error_result
      in if contains ''command not found'' error_text then
           (case py_split cmd of
              [] \<Rightarrow> Inl IndexError
            | cmd_name # _ \<Rightarrow>
                Inr [''Install '' @ cmd_name @ '' using your package manager'',
                     ''Check if '' @ cmd_name @ '' is in your PATH'',
                     ''Check for typos in the command name''])
         else if contains ''permission denied'' error_text then
           Inr [''Try with sudo: sudo '' @ cmd,
                ''Check file permissions with ls -l'',
                ''Ensure you have access to the file/directory'']
         else if contains ''no such file or directory'' error_text then
           Inr [''Check if the file/directory exists'',
                ''Verify the path is correct'',
                ''Use tab completion to verify paths'']
         else if list_ex (\<lambda>pkg. contains pkg error_text) [''apt'', ''yum'', ''dnf'', ''brew''] then
           (if contains ''lock'' error_text then
              Inr [''Another package manager is running'',
                   ''Wait for it to finish or kill the process'']
            else if contains ''not found'' error_text then
              Inr [''Update package lists first'', ''Check package name spelling'']
            else Inr [])
         else if contains ''git'' cmd then
           (if contains ''not a git repository'' error_text then
              Inr [''Initialize a git repository: git init'',
                   ''Clone an existing repository'']
            else if contains ''merge conflict'' error_text then
              Inr [''Resolve conflicts manually'',
                   ''Use git status to see conflicted files'']
            else Inr [])
         else if contains ''python'' cmd \<or> contains ''pip'' cmd then
           (if contains ''modulenotfounderror'' error_text then
              (case find_module (stderr error_result) of
                 Some m \<Rightarrow> Inr [''Install missing module: pip install '' @ m]
               | None \<Rightarrow> Inr [])
            else if contains ''syntaxerror'' error_text then
              Inr [''Check Python syntax'', ''Verify Python version compatibility'']
            else Inr [])
         else Inr [])"

section \<open>\<open>CommandExecutor.clean_command\<close>\<close>

definition replacements :: "(string \<times> string) list" where
  "replacements =
     [(''ls-la'', ''ls -la''),
      (''cd~'', ''cd ~''),
      (''cd..'', ''cd ..''),
      (''rm-rf'', ''rm -rf'')]"

definition clean_command :: "string \<Rightarrow> string" where
  "clean_command cmd =
     (let c1 = py_strip cmd;
          c2 = py_join '' '' (py_split c1)
      in fold (\<lambda>(typo, correct) c. py_replace typo correct c) replacements c2)"

section \<open>The shape of a cleaned command\<close>

text \<open>
  \<open>tidy b s\<close>: \<open>s\<close> is the rest of a text made of words that are separated by single
  blanks and contain no whitespace; \<open>b\<close> tells whether the character before \<open>s\<close>
  belongs to a word, so that a blank or the end may come next.
\<close>

fun tidy :: "bool \<Rightarrow> string \<Rightarrow> bool" where
  "tidy b [] = b"
| "tidy b (c # cs) = (if c = CHR '' '' then b \<and> tidy False cs else \<not> isspace c \<and> tidy True cs)"

text \<open>A word: not empty, no whitespace.\<close>

definition word :: "string \<Rightarrow> bool" where
  "word w = (w \<noteq> [] \<and> list_all (\<lambda>c. \<not> isspace c) w)"

text \<open>A text on which \<open>clean_command\<close> has nothing left to do: empty or tidy, and free
  of every typo of \<open>replacements\<close>.\<close>

definition settled :: "string \<Rightarrow> bool" where
  "settled s =
     ((s = [] \<or> tidy False s) \<and>
      list_all (\<lambda>(typo, correct). \<not> contains typo s) replacements)"

section \<open>\<open>ShellAIAssistant\<close>: the repair loop\<close>












section \<open>Observing a run\<close>

text \<open>The events of a trace that start a process, and those that call the suggestion
  provider.\<close>

fun is_spawn :: "event \<Rightarrow> bool" where
  "is_spawn (Spawn c) = True"
| "is_spawn e = False"


text \<open>A call \<open>execute(cmd)\<close> made in state \<open>st\<close> runs its process to completion:
  the command passes validation and \<open>subprocess.run\<close> returns.\<close>

definition completes :: "world \<Rightarrow> string \<Rightarrow> state \<Rightarrow> bool" where
  "completes w cmd st =
     (fst (validate_command cmd) \<and>
      (case shell w (trace st) cmd of Completed rc out err \<Rightarrow> True | _ \<Rightarrow> False))"

text \<open>A caller making one call \<open>execute(c)\<close> after the other, for the commands of a
  list; every outcome is kept together with whether its process ran to completion.\<close>

fun execute_all :: "world \<Rightarrow> string list \<Rightarrow> state \<Rightarrow> (outcome \<times> bool) list \<times> state" where
  "execute_all w [] st = ([], st)"
| "execute_all w (c # cs) st =
     (case execute w c False st of (r, st1) \<Rightarrow>
        (case execute_all w cs st1 of (rs, st2) \<Rightarrow> ((r, completes w c st) # rs, st2)))"

section \<open>Concrete environments\<close>

text \<open>A shell in which every command exits with code 1, and a provider that always
  suggests the command \<open>false\<close>.\<close>

definition world_fail :: world where
  "world_fail =
     \<lparr>shell = (\<lambda>tr c. Completed 1 [] ''boom''),
      provider = (\<lambda>tr q. \<lparr>s_command = ''false'', safe_to_auto_execute = False\<rparr>)\<rparr>"

text \<open>A shell in which \<open>sleep 60\<close> runs into the timeout and every other command
  exits with code 0.\<close>

definition world_sleep :: world where
  "world_sleep =
     \<lparr>shell = (\<lambda>tr c. if c = ''sleep 60'' then TimeoutExpired else Completed 0 [] []),
      provider = (\<lambda>tr q. \<lparr>s_command = ''true'', safe_to_auto_execute = True\<rparr>)\<rparr>"

text \<open>A fresh executor (empty history, nothing happened yet) in front of a terminal
  holding the given input.\<close>

definition fresh :: "stdin_item list \<Rightarrow> state" where
  "fresh inp = \<lparr>history = [], stdin = inp, trace = []\<rparr>"


section \<open>Effects of the operations on the trace\<close>

lemma dangerous_rm_rf_root: "fst (is_dangerous ''rm -rf /'')"
  by code_simp






lemma execute_history:
  "history (snd (execute w cmd False st)) =
     (if completes w cmd st then history st @ [fst (execute w cmd False st)] else history st)"
  by (auto simp: execute_def completes_def Let_def split: prod.splits proc_result.splits)

lemma execute_all_history:
  "history (snd (execute_all w cs st)) =
     history st @ map fst (filter snd (fst (execute_all w cs st)))"
proof (induction cs arbitrary: st)
  case Nil
  show ?case by simp
next
  case (Cons c cs)
  obtain r st1 where e: "execute w c False st = (r, st1)" by (cases "execute w c False st")
  obtain rs st2 where a: "execute_all w cs st1 = (rs, st2)" by (cases "execute_all w cs st1")
  have h: "history st1 = (if completes w c st then history st @ [r] else history st)"
    using execute_history [of w c st] e by simp
  have "history st2 = history st1 @ map fst (filter snd rs)"
    using Cons.IH [of st1] a by simp
  then show ?case using e a h by simp
qed

section \<open>The risk classifier on \<open>rm -rf /\<close>\<close>

text \<open>
  C8 (as the code has it).  \<open>is_dangerous("rm -rf /")\<close> returns \<open>True\<close> with exactly
  one reason, and that reason quotes the regular expression that matched, as the
  source writes it: \<open>Matches dangerous pattern: rm\s+-rf\s+/\<close>.
\<close>

theorem is_dangerous_rm_rf_root:
  "is_dangerous ''rm -rf /'' =
     (True, [''Matches dangerous pattern: '' @ ''rm'' @ bs # ''s+-rf'' @ bs # ''s+/''])"
  by code_simp

text \<open>
  C8 (as the specification has it) fails: the reason is not the text
  \<open>Matches dangerous pattern: rm -rf /\<close>.
\<close>

theorem is_dangerous_rm_rf_root_counterexample:
  "is_dangerous ''rm -rf /'' \<noteq> (True, [''Matches dangerous pattern: rm -rf /''])"
  by code_simp

section \<open>The validator and command substitution\<close>

text \<open>
  C3.  The specification wants every text containing \<open>$(\<close> rejected.  The code
  looks for the six characters \<open>$(...)\<close> instead, so \<open>echo $(whoami)\<close> is
  accepted as valid.
\<close>

theorem validate_command_accepts_substitution:
  "validate_command ''echo $(whoami)'' = (True, ''Valid'')"
  by code_simp

section \<open>The failure analyzer on an empty command\<close>

text \<open>
  C9.  The specification wants \<open>suggest_fix\<close> to return a list for every outcome.
  For an outcome whose command is empty and whose error text contains
  \<open>command not found\<close>, the code evaluates \<open>command.split()[0]\<close> on an empty list,
  which raises \<open>IndexError\<close>.
\<close>

theorem suggest_fix_empty_command_raises:
  "suggest_fix
     \<lparr>success = False, command = [], error = None, stdout = [],
      stderr = ''bash: command not found'', returncode = 127,
      is_dangerous_key = Some False, risks = Some [], dry_run = Some False\<rparr>
   = Inl IndexError"
  by code_simp

section \<open>Dry runs\<close>

text \<open>
  C6 (as the code has it).  A call of \<open>execute\<close> with \<open>dry_run=True\<close> changes
  nothing: no process is started and the history is left alone.  When the command
  passes \<open>validate_command\<close> the outcome has \<open>success = True\<close>, return code 0 and the
  standard output \<open>[DRY RUN] Would execute: \<close> followed by the command; when it does
  not, the outcome is the validation failure.
\<close>

theorem execute_dry_run:
  "snd (execute w cmd True st) = st \<and>
   (fst (validate_command cmd) \<longrightarrow>
      success (fst (execute w cmd True st)) \<and>
      returncode (fst (execute w cmd True st)) = 0 \<and>
      stdout (fst (execute w cmd True st)) = ''[DRY RUN] Would execute: '' @ cmd) \<and>
   (\<not> fst (validate_command cmd) \<longrightarrow>
      fst (execute w cmd True st) = invalid_result cmd (snd (validate_command cmd)))"
  by (simp add: execute_def run_result_def split: prod.splits)

theorem execute_dry_run_witness:
  "fst (validate_command ''ls -la'') \<and>
   snd (execute world_fail ''ls -la'' True (fresh [])) = fresh [] \<and>
   success (fst (execute world_fail ''ls -la'' True (fresh []))) \<and>
   returncode (fst (execute world_fail ''ls -la'' True (fresh []))) = 0 \<and>
   stdout (fst (execute world_fail ''ls -la'' True (fresh []))) =
     ''[DRY RUN] Would execute: ls -la''"
proof -
  have h: "fst (validate_command ''ls -la'')" by code_simp
  show ?thesis using h execute_dry_run [of world_fail "''ls -la''" "fresh []"] by simp
qed

text \<open>
  C6 (as the specification has it) fails: the dry run of the empty command is a
  failure with return code -1.
\<close>

theorem execute_dry_run_counterexample:
  "\<not> success (fst (execute world_fail [] True (fresh []))) \<and>
   returncode (fst (execute world_fail [] True (fresh []))) = - 1"
  by code_simp

section \<open>Timeouts\<close>

text \<open>
  C7.  When \<open>subprocess.run\<close> raises \<open>TimeoutExpired\<close> for a command that passed
  validation, \<open>execute\<close> returns an outcome with \<open>success = False\<close>, return code -1,
  empty standard output and the error text \<open>Command timed out after 30 seconds\<close>.
  The process was started once and not again: exactly one \<open>Spawn\<close> event is added,
  and nothing else of the state changes.
\<close>

theorem execute_timeout:
  assumes "fst (validate_command cmd)" and "shell w (trace st) cmd = TimeoutExpired"
  shows "\<not> success (fst (execute w cmd False st)) \<and>
         returncode (fst (execute w cmd False st)) = - 1 \<and>
         stdout (fst (execute w cmd False st)) = [] \<and>
         stderr (fst (execute w cmd False st)) = ''Command timed out after 30 seconds'' \<and>
         snd (execute w cmd False st) = st\<lparr>trace := trace st @ [Spawn cmd]\<rparr>"
  using assms by (auto simp: execute_def run_result_def Let_def split: prod.splits)

theorem execute_timeout_witness:
  "fst (validate_command ''sleep 60'') \<and>
   shell world_sleep (trace (fresh [])) ''sleep 60'' = TimeoutExpired \<and>
   \<not> success (fst (execute world_sleep ''sleep 60'' False (fresh []))) \<and>
   returncode (fst (execute world_sleep ''sleep 60'' False (fresh []))) = - 1 \<and>
   stdout (fst (execute world_sleep ''sleep 60'' False (fresh []))) = [] \<and>
   stderr (fst (execute world_sleep ''sleep 60'' False (fresh []))) =
     ''Command timed out after 30 seconds'' \<and>
   trace (snd (execute world_sleep ''sleep 60'' False (fresh []))) = [Spawn ''sleep 60'']"
proof -
  have h1: "fst (validate_command ''sleep 60'')" by code_simp
  have h2: "shell world_sleep (trace (fresh [])) ''sleep 60'' = TimeoutExpired"
    by (simp add: world_sleep_def)
  show ?thesis
    using h1 h2 execute_timeout [OF h1 h2] by (simp add: fresh_def)
qed

section \<open>The confirmation gate\<close>

text \<open>
  C5.  For a command that \<open>is_dangerous\<close> classifies as dangerous, called without
  \<open>auto_confirm\<close>, when the answer read at the prompt is any line whose lower-case
  form is not \<open>y\<close>, \<open>execute_with_confirmation\<close> returns the cancelled outcome
  (\<open>success = False\<close>, return code -1).  Nothing was run: the state only lost the
  line that was read and gained the prompt event; no process was started and the
  history is as before.
\<close>

theorem deny_by_default:
  assumes "fst (is_dangerous cmd)" and "\<not> auto_confirm"
    and "stdin st = Line response # rest" and "py_lower response \<noteq> ''y''"
  shows "execute_with_confirmation w cmd auto_confirm st =
           (Inr (cancelled_result cmd),
            st\<lparr>stdin := rest, trace := trace st @ [AskConfirm cmd (snd (is_dangerous cmd))]\<rparr>) \<and>
         \<not> success (cancelled_result cmd) \<and> returncode (cancelled_result cmd) = - 1 \<and>
         filter is_spawn (trace (snd (execute_with_confirmation w cmd auto_confirm st))) =
           filter is_spawn (trace st) \<and>
         history (snd (execute_with_confirmation w cmd auto_confirm st)) = history st"
  using assms
  by (auto simp: execute_with_confirmation_def input_line_def cancelled_result_def
           split: prod.splits)

theorem deny_by_default_witness:
  "fst (is_dangerous ''rm -rf /'') \<and> stdin (fresh [Line ''yes'']) = [Line ''yes''] \<and>
   py_lower ''yes'' \<noteq> ''y'' \<and>
   execute_with_confirmation world_fail ''rm -rf /'' False (fresh [Line ''yes'']) =
     (Inr (cancelled_result ''rm -rf /''),
      \<lparr>history = [], stdin = [],
       trace = [AskConfirm ''rm -rf /'' (snd (is_dangerous ''rm -rf /''))]\<rparr>) \<and>
   filter is_spawn
     (trace (snd (execute_with_confirmation world_fail ''rm -rf /'' False (fresh [Line ''yes''])))) = []"
proof -
  have h1: "fst (is_dangerous ''rm -rf /'')" by (rule dangerous_rm_rf_root)
  have h2: "stdin (fresh [Line ''yes'']) = Line ''yes'' # []" by (simp add: fresh_def)
  have h3: "py_lower ''yes'' \<noteq> ''y''" by (simp add: py_lower_def)
  have h4: "\<not> False" by simp
  show ?thesis
    using h1 h2 h3 deny_by_default [OF h1 h4 h2 h3, of world_fail] by (simp add: fresh_def)
qed

text \<open>
  C1 (as the code has it).  For a dangerous command, \<open>execute_with_confirmation\<close>
  called with \<open>auto_confirm=False\<close> first asks for confirmation: the events it adds
  are the prompt alone, or the prompt followed by the start of the process.  Called
  with \<open>auto_confirm=True\<close> it does not ask: it is \<open>execute\<close> on the command.
\<close>

theorem confirmation_gate:
  assumes "fst (is_dangerous cmd)"
  shows "(trace (snd (execute_with_confirmation w cmd False st)) =
            trace st @ [AskConfirm cmd (snd (is_dangerous cmd))] \<or>
          trace (snd (execute_with_confirmation w cmd False st)) =
            trace st @ [AskConfirm cmd (snd (is_dangerous cmd)), Spawn cmd]) \<and>
         execute_with_confirmation w cmd True st =
           (Inr (fst (execute w cmd False st)), snd (execute w cmd False st))"
  using assms
  by (auto simp: execute_with_confirmation_def input_line_def execute_def Let_def
           split: prod.splits list.splits stdin_item.splits proc_result.splits)

theorem confirmation_gate_witness:
  "fst (is_dangerous ''rm -rf /'') \<and>
   trace (snd (execute_with_confirmation world_fail ''rm -rf /'' False (fresh [Line ''y'']))) =
     [AskConfirm ''rm -rf /'' (snd (is_dangerous ''rm -rf /'')), Spawn ''rm -rf /'']"
proof -
  have h1: "fst (is_dangerous ''rm -rf /'')" by (rule dangerous_rm_rf_root)
  have h2: "trace (snd (execute_with_confirmation world_fail ''rm -rf /'' False
                (fresh [Line ''y'']))) \<noteq>
     trace (fresh [Line ''y'']) @ [AskConfirm ''rm -rf /'' (snd (is_dangerous ''rm -rf /''))]"
    by code_simp
  show ?thesis
    using h1 h2 confirmation_gate [OF h1, of world_fail "fresh [Line ''y'']"]
    by (simp add: fresh_def)
qed

text \<open>
  C1 (as the specification has it) fails: with \<open>auto_confirm=True\<close> the dangerous
  command \<open>rm -rf /\<close> is run and the only event is the start of its process; nobody
  was asked.
\<close>

theorem confirmation_gate_counterexample:
  "fst (is_dangerous ''rm -rf /'') \<and>
   trace (snd (execute_with_confirmation world_fail ''rm -rf /'' True (fresh []))) =
     [Spawn ''rm -rf /'']"
  by code_simp

section \<open>The execution log\<close>

text \<open>
  C4 (as the code has it).  A call of \<open>execute\<close> with \<open>dry_run=False\<close> appends its
  outcome to the history when the command passed validation and its process ran to
  completion, and leaves the history alone otherwise.  So after any sequence of such
  calls the history is the old one followed by the outcomes of the calls whose process
  ran to completion, in call order.
\<close>

theorem execute_log:
  "history (snd (execute w cmd False st)) =
     (if completes w cmd st then history st @ [fst (execute w cmd False st)] else history st) \<and>
   history (snd (execute_all w cs st)) =
     history st @ map fst (filter snd (fst (execute_all w cs st)))"
  using execute_history execute_all_history by simp

theorem execute_log_witness:
  "history (snd (execute_all world_sleep [[], ''sleep 60'', ''ls''] (fresh []))) =
     map fst (filter snd (fst (execute_all world_sleep [[], ''sleep 60'', ''ls''] (fresh [])))) \<and>
   map snd (fst (execute_all world_sleep [[], ''sleep 60'', ''ls''] (fresh []))) =
     [False, False, True]"
proof -
  have "map snd (fst (execute_all world_sleep [[], ''sleep 60'', ''ls''] (fresh []))) =
          [False, False, True]"
    by code_simp
  then show ?thesis
    using execute_log [of world_sleep "[]" "fresh []" "[[], ''sleep 60'', ''ls'']"]
    by (simp add: fresh_def)
qed

text \<open>
  C4 (as the specification has it) fails: of three calls, one rejected by validation,
  one timed out and one completed, the history holds one outcome; after the rejected
  call alone, and after the timed-out call alone, it is empty.
\<close>

theorem execute_log_counterexample:
  "length (fst (execute_all world_sleep [[], ''sleep 60'', ''ls''] (fresh []))) = 3 \<and>
   length (history (snd (execute_all world_sleep [[], ''sleep 60'', ''ls''] (fresh [])))) = 1 \<and>
   history (snd (execute world_sleep [] False (fresh []))) = [] \<and>
   history (snd (execute world_sleep ''sleep 60'' False (fresh []))) = []"
  by code_simp

section \<open>The repair loop\<close>





section \<open>Cleaning a command twice\<close>

subsection \<open>Whitespace\<close>

lemma isspace_blank: "isspace (CHR '' '')"
  by (simp add: isspace_def)

lemma contains_sublist: "contains p s = sublist p s"
  by (induction s) (auto simp: sublist_Cons_right)

lemma tidy_word: "w \<noteq> [] \<Longrightarrow> list_all (\<lambda>c. \<not> isspace c) w \<Longrightarrow> tidy b (w @ r) = tidy True r"
proof (induction w arbitrary: b)
  case Nil
  then show ?case by simp
next
  case (Cons c w)
  then have c: "\<not> isspace c" "c \<noteq> CHR '' ''" using isspace_blank by auto
  show ?case
  proof (cases "w = []")
    case True
    then show ?thesis using c by simp
  next
    case False
    then show ?thesis using Cons c by simp
  qed
qed

lemma split_ws_words:
  "list_all (\<lambda>c. \<not> isspace c) cur \<Longrightarrow> list_all word (split_ws cur s)"
  by (induction s arbitrary: cur) (auto simp: word_def)

lemma py_join_Cons: "ws \<noteq> [] \<Longrightarrow> py_join sep (w # ws) = w @ sep @ py_join sep ws"
  by (cases ws) auto

lemma tidy_join: "list_all word ws \<Longrightarrow> ws \<noteq> [] \<Longrightarrow> tidy False (py_join '' '' ws)"
proof (induction ws)
  case Nil
  then show ?case by simp
next
  case (Cons w ws)
  then have w: "w \<noteq> []" "list_all (\<lambda>c. \<not> isspace c) w" by (auto simp: word_def)
  show ?case
  proof (cases "ws = []")
    case True
    then show ?thesis using tidy_word [OF w, of False "[]"] by simp
  next
    case False
    then have "tidy False (py_join '' '' ws)" using Cons by simp
    then show ?thesis using False tidy_word [OF w, of False "'' '' @ py_join '' '' ws"]
      by (simp add: py_join_Cons)
  qed
qed

lemma split_ws_empty: "split_ws cur s = [] \<longleftrightarrow> cur = [] \<and> list_all isspace s"
  by (induction s arbitrary: cur) auto

lemma tidy_split_join:
  "tidy b s \<Longrightarrow> b = (cur \<noteq> []) \<Longrightarrow> py_join '' '' (split_ws cur s) = cur @ s"
proof (induction s arbitrary: b cur)
  case Nil
  then show ?case by simp
next
  case (Cons c cs)
  show ?case
  proof (cases "c = CHR '' ''")
    case True
    then have t: "tidy False cs" and cur: "cur \<noteq> []" using Cons.prems by auto
    have ne: "split_ws [] cs \<noteq> []"
    proof (cases cs)
      case Nil
      then show ?thesis using t by simp
    next
      case (Cons d ds)
      then have "\<not> isspace d" using t isspace_blank by (auto split: if_splits)
      then show ?thesis using Cons by (simp add: split_ws_empty)
    qed
    have "py_join '' '' (split_ws [] cs) = cs" using Cons.IH [OF t, of "[]"] by simp
    then show ?thesis using True cur ne isspace_blank by (simp add: py_join_Cons)
  next
    case False
    then have t: "tidy True cs" and c: "\<not> isspace c" using Cons.prems by auto
    have "py_join '' '' (split_ws (cur @ [c]) cs) = (cur @ [c]) @ cs"
      using Cons.IH [OF t, of "cur @ [c]"] by simp
    then show ?thesis using c by simp
  qed
qed

lemma tidy_last: "tidy b s \<Longrightarrow> s \<noteq> [] \<Longrightarrow> \<not> isspace (last s)"
  by (induction s arbitrary: b) (auto split: if_splits)

lemma tidy_strip: "tidy False s \<Longrightarrow> py_strip s = s"
proof -
  assume t: "tidy False s"
  then obtain c cs where s: "s = c # cs" by (cases s) auto
  then have "\<not> isspace c" using t isspace_blank by (auto split: if_splits)
  then have a: "dropWhile isspace s = s" using s by simp
  have "\<not> isspace (last s)" using tidy_last [OF t] s by simp
  then have "\<not> isspace (hd (rev s))" by (simp add: hd_rev)
  then have "dropWhile isspace (rev s) = rev s" using s by (cases "rev s") auto
  then show ?thesis using a by (simp add: py_strip_def)
qed

subsection \<open>Replacing a typo by its spaced form\<close>

lemma replace_ne_absent: "\<not> contains old s \<Longrightarrow> replace_ne old new s = s"
  by (induction s) auto

lemma replace_ne_hit:
  "old \<noteq> [] \<Longrightarrow> replace_ne old new (old @ t) = new @ replace_ne old new t"
  by (cases old) auto

lemma prefix_before: "prefix w (x @ a # r) \<Longrightarrow> a \<notin> set w \<Longrightarrow> prefix w x"
  by (auto simp: prefix_append prefix_Cons)

lemma replace_ne_prefix:
  "old = x @ y \<Longrightarrow> new = x @ CHR '' '' # y \<Longrightarrow> old \<noteq> [] \<Longrightarrow>
   CHR '' '' \<notin> set w \<Longrightarrow> prefix w (replace_ne old new s) \<Longrightarrow> prefix w s"
proof (induction old new s arbitrary: w rule: replace_ne.induct)
  case (1 old new)
  then show ?case by simp
next
  case (2 old new c cs)
  show ?case
  proof (cases "prefix old (c # cs)")
    case True
    then obtain t where t: "c # cs = old @ t" by (auto simp: prefix_def)
    have "prefix w (x @ CHR '' '' # (y @ replace_ne old new t))"
      using "2.prems" t replace_ne_hit [of old new t] by simp
    then have "prefix w x" using "2.prems"(4) by (rule prefix_before)
    then show ?thesis unfolding t using "2.prems"(1) by simp
  next
    case False
    then have r: "replace_ne old new (c # cs) = c # replace_ne old new cs" by simp
    show ?thesis
    proof (cases w)
      case Nil
      then show ?thesis by simp
    next
      case (Cons d ds)
      then have "d = c" "prefix ds (replace_ne old new cs)"
        using "2.prems"(5) r by auto
      moreover have "CHR '' '' \<notin> set ds" using "2.prems"(4) Cons by simp
      ultimately show ?thesis using "2.IH"(2) [of ds] False Cons "2.prems" by auto
    qed
  qed
qed

lemma sublist_blank_Cons:
  "p \<noteq> [] \<Longrightarrow> CHR '' '' \<notin> set p \<Longrightarrow> sublist p (CHR '' '' # r) = sublist p r"
  by (cases p) (auto simp: sublist_Cons_right)

lemma sublist_across:
  "suffix p1 y \<Longrightarrow> prefix p2 t \<Longrightarrow> sublist (p1 @ p2) (y @ t)"
  by (auto simp: suffix_def prefix_def sublist_def) (metis append.assoc)

lemma replace_ne_keeps_absent:
  "old = x @ y \<Longrightarrow> new = x @ CHR '' '' # y \<Longrightarrow> old \<noteq> [] \<Longrightarrow>
   p \<noteq> [] \<Longrightarrow> CHR '' '' \<notin> set p \<Longrightarrow>
   \<not> contains p s \<Longrightarrow> \<not> contains p (replace_ne old new s)"
proof (induction old new s rule: replace_ne.induct)
  case (1 old new)
  then show ?case by simp
next
  case (2 old new c cs)
  show ?case
  proof (cases "prefix old (c # cs)")
    case True
    then obtain t where t: "c # cs = old @ t" by (auto simp: prefix_def)
    define u where "u = replace_ne old new t"
    have nt: "\<not> sublist p (x @ y @ t)"
      using "2.prems" t by (simp add: contains_sublist)
    then have "\<not> sublist p t"
      by (metis sublist_order.order_trans sublist_append_leftI)
    then have nu: "\<not> sublist p u"
      using "2.IH"(1) "2.prems" True t by (simp add: contains_sublist u_def)
    have nx: "\<not> sublist p x" using nt by (metis sublist_order.order_trans sublist_append_rightI)
    have ny: "\<not> sublist p y"
      using nt by (metis sublist_order.order_trans sublist_appendI)
    have cross: "\<not> sublist p (y @ u)"
    proof
      assume "sublist p (y @ u)"
      then obtain p1 p2 where p: "p = p1 @ p2" "suffix p1 y" "prefix p2 u"
        using nu ny by (auto simp: sublist_append)
      have "CHR '' '' \<notin> set p2" using p "2.prems"(5) by simp
      then have "prefix p2 t"
        using replace_ne_prefix [OF "2.prems"(1,2,3), of p2 t] p(3) by (simp add: u_def)
      then have "sublist p (y @ t)" using p sublist_across by simp
      then show False using nt by (metis sublist_order.order_trans sublist_append_leftI)
    qed
    have "\<not> sublist p (x @ CHR '' '' # (y @ u))"
    proof
      assume "sublist p (x @ CHR '' '' # (y @ u))"
      then consider "sublist p (CHR '' '' # (y @ u))"
        | p1 p2 where "p = p1 @ p2" "suffix p1 x" "prefix p2 (CHR '' '' # (y @ u))"
        using nx by (auto simp: sublist_append)
      then show False
      proof cases
        case 1
        then show ?thesis using cross sublist_blank_Cons [OF "2.prems"(4,5)] by simp
      next
        case 2
        show ?thesis
        proof (cases p2)
          case Nil
          then show ?thesis using 2 nx by auto
        next
          case (Cons d ds)
          then show ?thesis using 2 "2.prems"(5) by auto
        qed
      qed
    qed
    then show ?thesis
      using t "2.prems"(1,2,3) replace_ne_hit [of old new t] by (simp add: contains_sublist u_def)
  next
    case False
    then have r: "replace_ne old new (c # cs) = c # replace_ne old new cs" by simp
    have a: "\<not> prefix p (c # cs)" and b: "\<not> contains p cs" using "2.prems"(6) by auto
    have b': "\<not> contains p (replace_ne old new cs)"
      using "2.IH"(2) False "2.prems" b by simp
    have "\<not> prefix p (c # replace_ne old new cs)"
      using replace_ne_prefix [OF "2.prems"(1,2,3,5), of "c # cs"] r a by auto
    then show ?thesis using r b' by simp
  qed
qed

lemma replace_ne_removes:
  "old = x @ y \<Longrightarrow> new = x @ CHR '' '' # y \<Longrightarrow> old \<noteq> [] \<Longrightarrow> CHR '' '' \<notin> set old \<Longrightarrow>
   (\<And>u. contains old (new @ u) \<Longrightarrow> contains old u) \<Longrightarrow>
   \<not> contains old (replace_ne old new s)"
proof (induction old new s rule: replace_ne.induct)
  case (1 old new)
  then show ?case by simp
next
  case (2 old new c cs)
  show ?case
  proof (cases "prefix old (c # cs)")
    case True
    then obtain t where t: "c # cs = old @ t" by (auto simp: prefix_def)
    have "\<not> contains old (replace_ne old new t)"
      using "2.IH"(1) "2.prems" True t by simp
    then have "\<not> contains old (new @ replace_ne old new t)"
      using "2.prems"(5) by blast
    then show ?thesis using t "2.prems"(3) replace_ne_hit [of old new t] by simp
  next
    case False
    then have r: "replace_ne old new (c # cs) = c # replace_ne old new cs" by simp
    have b': "\<not> contains old (replace_ne old new cs)"
      using "2.IH"(2) False "2.prems" by simp
    have "\<not> prefix old (c # replace_ne old new cs)"
      using replace_ne_prefix [OF "2.prems"(1,2,3,4), of "c # cs"] r False by auto
    then show ?thesis using r b' by simp
  qed
qed

lemma replace_ne_tidy:
  "old = x @ y \<Longrightarrow> new = x @ CHR '' '' # y \<Longrightarrow> word x \<Longrightarrow> word y \<Longrightarrow>
   tidy b s \<Longrightarrow> tidy b (replace_ne old new s)"
proof (induction old new s arbitrary: b rule: replace_ne.induct)
  case (1 old new)
  then show ?case by simp
next
  case (2 old new c cs)
  have wx: "x \<noteq> []" "list_all (\<lambda>c. \<not> isspace c) x" and wy: "y \<noteq> []" "list_all (\<lambda>c. \<not> isspace c) y"
    using "2.prems" by (auto simp: word_def)
  show ?case
  proof (cases "prefix old (c # cs)")
    case True
    then obtain t where t: "c # cs = old @ t" by (auto simp: prefix_def)
    have "tidy b (x @ (y @ t))" using "2.prems" t by simp
    then have "tidy True t" using tidy_word [OF wx] tidy_word [OF wy] by simp
    then have "tidy True (replace_ne old new t)"
      using "2.IH"(1) [of True] "2.prems" True t wx by simp
    then have "tidy b (x @ CHR '' '' # (y @ replace_ne old new t))"
      using tidy_word [OF wx] tidy_word [OF wy] by simp
    then show ?thesis using t "2.prems"(1,2) wx replace_ne_hit [of old new t] by simp
  next
    case False
    then have r: "replace_ne old new (c # cs) = c # replace_ne old new cs" by simp
    show ?thesis using "2.IH"(2) False "2.prems" r by (auto split: if_splits)
  qed
qed

subsection \<open>The four replacements of \<open>clean_command\<close>\<close>

lemma clean_command_unfold:
  "clean_command cmd =
     replace_ne ''rm-rf'' ''rm -rf''
       (replace_ne ''cd..'' ''cd ..''
         (replace_ne ''cd~'' ''cd ~''
           (replace_ne ''ls-la'' ''ls -la'' (py_join '' '' (py_split (py_strip cmd))))))"
  by (simp add: clean_command_def replacements_def py_replace_def)

lemma joined_tidy:
  "py_join '' '' (py_split s) = [] \<or> tidy False (py_join '' '' (py_split s))"
proof (cases "py_split s = []")
  case True
  then show ?thesis by simp
next
  case False
  have "list_all word (py_split s)" unfolding py_split_def by (rule split_ws_words) simp
  then show ?thesis using False tidy_join by simp
qed

lemma tidy_fixed:
  assumes "s = [] \<or> tidy False s"
  shows "py_join '' '' (py_split (py_strip s)) = s"
proof (cases "s = []")
  case True
  then show ?thesis by (simp add: py_strip_def py_split_def)
next
  case False
  then have t: "tidy False s" using assms by simp
  have "py_join '' '' (split_ws [] s) = [] @ s" using t by (rule tidy_split_join) simp
  then show ?thesis using tidy_strip [OF t] by (simp add: py_split_def)
qed

lemma settled_fixed: "settled s \<Longrightarrow> clean_command s = s"
  by (simp add: settled_def clean_command_unfold tidy_fixed replacements_def replace_ne_absent)

lemma replace_ne_tidy0:
  "old = x @ y \<Longrightarrow> new = x @ CHR '' '' # y \<Longrightarrow> word x \<Longrightarrow> word y \<Longrightarrow>
   s = [] \<or> tidy False s \<Longrightarrow> replace_ne old new s = [] \<or> tidy False (replace_ne old new s)"
  using replace_ne_tidy by auto

lemma word_parts:
  "word ''ls''" "word ''-la''" "word ''cd''" "word ''~''" "word ''..''" "word ''rm''" "word ''-rf''"
  by (simp_all add: word_def isspace_def)

lemma r1_tidy: "s = [] \<or> tidy False s \<Longrightarrow>
    replace_ne ''ls-la'' ''ls -la'' s = [] \<or> tidy False (replace_ne ''ls-la'' ''ls -la'' s)"
  by (rule replace_ne_tidy0 [where x = "''ls''" and y = "''-la''"]) (simp_all add: word_parts)

lemma r2_tidy: "s = [] \<or> tidy False s \<Longrightarrow>
    replace_ne ''cd~'' ''cd ~'' s = [] \<or> tidy False (replace_ne ''cd~'' ''cd ~'' s)"
  by (rule replace_ne_tidy0 [where x = "''cd''" and y = "''~''"]) (simp_all add: word_parts)

lemma r3_tidy: "s = [] \<or> tidy False s \<Longrightarrow>
    replace_ne ''cd..'' ''cd ..'' s = [] \<or> tidy False (replace_ne ''cd..'' ''cd ..'' s)"
  by (rule replace_ne_tidy0 [where x = "''cd''" and y = "''..''"]) (simp_all add: word_parts)

lemma r4_tidy: "s = [] \<or> tidy False s \<Longrightarrow>
    replace_ne ''rm-rf'' ''rm -rf'' s = [] \<or> tidy False (replace_ne ''rm-rf'' ''rm -rf'' s)"
  by (rule replace_ne_tidy0 [where x = "''rm''" and y = "''-rf''"]) (simp_all add: word_parts)

lemma r1_removes: "\<not> contains ''ls-la'' (replace_ne ''ls-la'' ''ls -la'' s)"
  by (rule replace_ne_removes [where x = "''ls''" and y = "''-la''"]) simp_all

lemma r2_removes: "\<not> contains ''cd~'' (replace_ne ''cd~'' ''cd ~'' s)"
  by (rule replace_ne_removes [where x = "''cd''" and y = "''~''"]) simp_all

lemma r3_removes: "\<not> contains ''cd..'' (replace_ne ''cd..'' ''cd ..'' s)"
  by (rule replace_ne_removes [where x = "''cd''" and y = "''..''"]) simp_all

lemma r4_removes: "\<not> contains ''rm-rf'' (replace_ne ''rm-rf'' ''rm -rf'' s)"
  by (rule replace_ne_removes [where x = "''rm''" and y = "''-rf''"]) simp_all

lemma r2_keeps: "p \<noteq> [] \<Longrightarrow> CHR '' '' \<notin> set p \<Longrightarrow> \<not> contains p s \<Longrightarrow>
    \<not> contains p (replace_ne ''cd~'' ''cd ~'' s)"
  by (rule replace_ne_keeps_absent [where x = "''cd''" and y = "''~''"]) simp_all

lemma r3_keeps: "p \<noteq> [] \<Longrightarrow> CHR '' '' \<notin> set p \<Longrightarrow> \<not> contains p s \<Longrightarrow>
    \<not> contains p (replace_ne ''cd..'' ''cd ..'' s)"
  by (rule replace_ne_keeps_absent [where x = "''cd''" and y = "''..''"]) simp_all

lemma r4_keeps: "p \<noteq> [] \<Longrightarrow> CHR '' '' \<notin> set p \<Longrightarrow> \<not> contains p s \<Longrightarrow>
    \<not> contains p (replace_ne ''rm-rf'' ''rm -rf'' s)"
  by (rule replace_ne_keeps_absent [where x = "''rm''" and y = "''-rf''"]) simp_all

lemma clean_command_settled: "settled (clean_command cmd)"
proof -
  define n where "n = py_join '' '' (py_split (py_strip cmd))"
  define s1 where "s1 = replace_ne ''ls-la'' ''ls -la'' n"
  define s2 where "s2 = replace_ne ''cd~'' ''cd ~'' s1"
  define s3 where "s3 = replace_ne ''cd..'' ''cd ..'' s2"
  define s4 where "s4 = replace_ne ''rm-rf'' ''rm -rf'' s3"
  have c: "clean_command cmd = s4"
    by (simp add: clean_command_unfold n_def s1_def s2_def s3_def s4_def)
  have "n = [] \<or> tidy False n" unfolding n_def by (rule joined_tidy)
  then have "s1 = [] \<or> tidy False s1" unfolding s1_def by (rule r1_tidy)
  then have "s2 = [] \<or> tidy False s2" unfolding s2_def by (rule r2_tidy)
  then have "s3 = [] \<or> tidy False s3" unfolding s3_def by (rule r3_tidy)
  then have t4: "s4 = [] \<or> tidy False s4" unfolding s4_def by (rule r4_tidy)
  have a1: "\<not> contains ''ls-la'' s1" unfolding s1_def by (rule r1_removes)
  have a2: "\<not> contains ''ls-la'' s2" unfolding s2_def using a1 by (intro r2_keeps) simp_all
  have a3: "\<not> contains ''ls-la'' s3" unfolding s3_def using a2 by (intro r3_keeps) simp_all
  have a4: "\<not> contains ''ls-la'' s4" unfolding s4_def using a3 by (intro r4_keeps) simp_all
  have b2: "\<not> contains ''cd~'' s2" unfolding s2_def by (rule r2_removes)
  have b3: "\<not> contains ''cd~'' s3" unfolding s3_def using b2 by (intro r3_keeps) simp_all
  have b4: "\<not> contains ''cd~'' s4" unfolding s4_def using b3 by (intro r4_keeps) simp_all
  have c3: "\<not> contains ''cd..'' s3" unfolding s3_def by (rule r3_removes)
  have c4: "\<not> contains ''cd..'' s4" unfolding s4_def using c3 by (intro r4_keeps) simp_all
  have d4: "\<not> contains ''rm-rf'' s4" unfolding s4_def by (rule r4_removes)
  show ?thesis using c t4 a4 b4 c4 d4 by (simp add: settled_def replacements_def)
qed

text \<open>
  C10.  \<open>clean_command\<close> is idempotent: cleaning a cleaned command changes nothing.
\<close>

theorem clean_command_idempotent: "clean_command (clean_command c) = clean_command c"
  using clean_command_settled [of c] by (rule settled_fixed)

theorem clean_command_idempotent_witness:
  "clean_command (clean_command ''  ls-la   cd..  '') = clean_command ''  ls-la   cd..  '' \<and>
   clean_command ''  ls-la   cd..  '' = ''ls -la cd ..''"
proof -
  have "clean_command ''  ls-la   cd..  '' = ''ls -la cd ..''" by code_simp
  then show ?thesis using clean_command_idempotent [of "''  ls-la   cd..  ''"] by simp
qed

end
